theory Spec2Isabelle
  imports Complex_Main "HOL-Library.Multiset"
begin

section \<open>Values exchanged with the analysis engine\<close>

text \<open>
  The engine answers with JSON text, and the program keeps whatever \<^verbatim>\<open>JSON.parse\<close>
  returns. The interface \<^verbatim>\<open>GeopoliticalAnalysis\<close> is only a compile-time annotation, so the
  analysis payload is modelled as an untyped JSON value. An object is the list of its
  entries in insertion order, with distinct keys. A number is the rational it is equal
  to; sums and quotients of numbers are exact, where the program rounds each to the
  nearest double.
\<close>

datatype json =
    JNull
  | JBool bool
  | JNum rat
  | JStr string
  | JArr "json list"
  | JObj "(string \<times> json) list"

text \<open>Property access \<^verbatim>\<open>v.name\<close> on a non-null value; \<open>None\<close> is \<^verbatim>\<open>undefined\<close>.\<close>

fun field :: "string \<Rightarrow> json \<Rightarrow> json option" where
  "field k (JObj kvs) = map_of kvs k"
| "field k v = None"

section \<open>The Analysis Store: table \<^verbatim>\<open>analysis_cache\<close>\<close>

text \<open>
  The column \<^verbatim>\<open>risk_score\<close> as \<^verbatim>\<open>GET /api/cache\<close> returns it. \<^verbatim>\<open>INTEGER\<close> is an affinity,
  not a constraint: the column holds \<^verbatim>\<open>NULL\<close>, a number with or without a fraction, or a
  text.
\<close>

datatype score = SNull | SNum rat | SText string

text \<open>
  A row of \<^verbatim>\<open>analysis_cache\<close> (interface \<^verbatim>\<open>CachedAnalysis\<close> on the client). The column
  \<^verbatim>\<open>analysis\<close> holds \<^verbatim>\<open>JSON.stringify(analysis)\<close> and every reader applies \<^verbatim>\<open>JSON.parse\<close>
  to it, so the model stores the JSON value itself. \<^verbatim>\<open>timestamp\<close> is
  \<^verbatim>\<open>CURRENT_TIMESTAMP\<close>, a text with one-second resolution whose order is the order of
  time: it is modelled as a number of seconds.
\<close>

record CachedAnalysis =
  c_id :: string
  c_headline :: string
  c_analysis :: json
  c_risk_score :: score
  c_timestamp :: nat

text \<open>The table is the list of its rows in insertion (rowid) order.\<close>

type_synonym analysis_cache = "CachedAnalysis list"

text \<open>
  \<^verbatim>\<open>INSERT OR REPLACE INTO analysis_cache (id, headline, analysis, risk_score) VALUES (?, ?, ?, ?)\<close>
  executed at second \<open>now\<close>. \<^verbatim>\<open>id\<close> is the primary key: the conflicting row is deleted and
  a new row is inserted, whose \<^verbatim>\<open>timestamp\<close>, not being listed, takes its default
  \<^verbatim>\<open>CURRENT_TIMESTAMP\<close>.
\<close>

definition insert_or_replace ::
  "nat \<Rightarrow> string \<Rightarrow> string \<Rightarrow> json \<Rightarrow> score \<Rightarrow> analysis_cache \<Rightarrow> analysis_cache" where
  "insert_or_replace now i h a r tbl =
     filter (\<lambda>c. c_id c \<noteq> i) tbl @
     [\<lparr>c_id = i, c_headline = h, c_analysis = a, c_risk_score = r, c_timestamp = now\<rparr>]"

text \<open>
  \<^verbatim>\<open>ORDER BY timestamp DESC\<close>. The query names no second sort key, and SQL leaves the
  order of rows with equal timestamps to the engine; the model keeps them in scan
  (insertion) order, as a stable sort does.
\<close>

definition order_by_timestamp_desc :: "analysis_cache \<Rightarrow> analysis_cache" where
  "order_by_timestamp_desc tbl = rev (sort_key c_timestamp (rev tbl))"

text \<open>\<^verbatim>\<open>SELECT * FROM analysis_cache ORDER BY timestamp DESC LIMIT 50\<close>.\<close>

definition select_recent :: "analysis_cache \<Rightarrow> CachedAnalysis list" where
  "select_recent tbl = take 50 (order_by_timestamp_desc tbl)"

section \<open>The analysis engine: \<^verbatim>\<open>analyzeHeadline\<close>\<close>

datatype error = KeyMissing | EngineError | SyntaxError | TypeError

text \<open>
  What one invocation of \<^verbatim>\<open>analyzeHeadline\<close> meets: no API key (\<^verbatim>\<open>getAI\<close> throws), a
  rejected \<^verbatim>\<open>generateContent\<close> call (network, quota, time-out), a response whose \<^verbatim>\<open>text\<close>
  is undefined or empty, a text that is not JSON, or a text that is the JSON value \<open>v\<close>.
\<close>

datatype outcome = NoApiKey | Rejected | NoText | BadText | Text json

text \<open>
  \<^verbatim>\<open>return JSON.parse(response.text || "{}")\<close>: a missing or empty text is replaced by
  \<^verbatim>\<open>"{}"\<close>, which parses to the empty object; text that is not JSON makes \<^verbatim>\<open>JSON.parse\<close>
  throw; any JSON value is returned as it is.
\<close>

fun parse_response :: "outcome \<Rightarrow> error + json" where
  "parse_response NoApiKey = Inl KeyMissing"
| "parse_response Rejected = Inl EngineError"
| "parse_response NoText = Inr (JObj [])"
| "parse_response BadText = Inl SyntaxError"
| "parse_response (Text v) = Inr v"

text \<open>
  Everything outside the browser tab: the table, the clock in milliseconds, the engine
  as the outcomes of its coming invocations, each with the milliseconds it takes (an
  exhausted list is an engine that cannot be reached), and the log of the headlines
  \<^verbatim>\<open>analyzeHeadline\<close> was called with. HTTP and the database are taken to work.

  The last field is what the database driver and the column affinity, neither of which
  is in the repository, make of a \<^verbatim>\<open>risk_score\<close> that is a string, a boolean, an array or
  an object: the value the column then holds, or \<open>None\<close> when the statement throws, so
  that the handler answers 500 and writes nothing.
\<close>

record world =
  db :: analysis_cache
  clock :: nat
  engine :: "(nat \<times> outcome) list"
  calls :: "string list"
  driver :: "json \<Rightarrow> score option"

definition analyzeHeadline :: "string \<Rightarrow> world \<Rightarrow> (error + json) \<times> world" where
  "analyzeHeadline headline w =
     (case engine w of
        [] \<Rightarrow> (Inl EngineError, w\<lparr>calls := calls w @ [headline]\<rparr>)
      | (d, out) # rest \<Rightarrow>
          (parse_response out,
           w\<lparr>clock := clock w + d, engine := rest, calls := calls w @ [headline]\<rparr>))"

section \<open>The client: \<^verbatim>\<open>newsService\<close> and \<^verbatim>\<open>App\<close>\<close>

record NewsItem =
  n_id :: string
  n_headline :: string
  n_source :: string
  n_date :: string
  n_link :: string

text \<open>
  What the insert stores for the \<^verbatim>\<open>risk_score\<close> of the request body. A missing property
  (\<^verbatim>\<open>undefined\<close> is dropped from the body) and \<^verbatim>\<open>null\<close> are bound as \<^verbatim>\<open>NULL\<close>, a number
  is stored as that number; for any other value the driver of the world decides.
\<close>

definition stored_score :: "world \<Rightarrow> json option \<Rightarrow> score option" where
  "stored_score w v =
     (case v of
        None \<Rightarrow> Some SNull
      | Some JNull \<Rightarrow> Some SNull
      | Some (JNum q) \<Rightarrow> Some (SNum q)
      | Some u \<Rightarrow> driver w u)"

text \<open>
  \<^verbatim>\<open>saveToCache\<close> posts to \<^verbatim>\<open>/api/cache\<close>, whose handler runs the insert; the second of
  \<^verbatim>\<open>CURRENT_TIMESTAMP\<close> is the clock's. When the statement throws, the handler answers
  500, which \<^verbatim>\<open>saveToCache\<close> does not look at. \<^verbatim>\<open>fetchCache\<close> gets \<^verbatim>\<open>/api/cache\<close>, whose
  handler runs the select.
\<close>

definition saveToCache :: "string \<Rightarrow> string \<Rightarrow> json \<Rightarrow> json option \<Rightarrow> world \<Rightarrow> world" where
  "saveToCache i headline analysis riskScore w =
     (case stored_score w riskScore of
        None \<Rightarrow> w
      | Some r \<Rightarrow>
          w\<lparr>db := insert_or_replace (clock w div 1000) i headline analysis r (db w)\<rparr>)"

definition fetchCache :: "world \<Rightarrow> CachedAnalysis list" where
  "fetchCache w = select_recent (db w)"

text \<open>\<^verbatim>\<open>analysis.riskScore\<close>, whatever it is; \<open>None\<close> when the property is missing.\<close>

definition riskScore :: "json \<Rightarrow> json option" where
  "riskScore analysis = field ''riskScore'' analysis"

text \<open>The state of the component \<^verbatim>\<open>App\<close>; \<open>JNull\<close> is \<^verbatim>\<open>null\<close>.\<close>

record app =
  news :: "NewsItem list"
  cachedAnalyses :: "CachedAnalysis list"
  selectedNews :: "NewsItem option"
  currentAnalysis :: json
  loading :: bool
  isInitializing :: bool

text \<open>The argument of \<^verbatim>\<open>handleAnalyze\<close>: a feed item or a headline typed by the user.\<close>

datatype target = Listed NewsItem | Typed string

text \<open>\<^verbatim>\<open>Date.now()\<close> inside a template string: the decimal digits of the clock.\<close>

fun decimal :: "nat \<Rightarrow> string" where
  "decimal n =
     (if n < 10 then [char_of (48 + n)]
      else decimal (n div 10) @ [char_of (48 + n mod 10)])"

definition headline_of :: "target \<Rightarrow> string" where
  "headline_of item = (case item of Typed t \<Rightarrow> t | Listed n \<Rightarrow> n_headline n)"

definition identity_of :: "target \<Rightarrow> world \<Rightarrow> string" where
  "identity_of item w =
     (case item of Typed t \<Rightarrow> ''custom-'' @ decimal (clock w) | Listed n \<Rightarrow> n_id n)"

definition select_news :: "target \<Rightarrow> app \<Rightarrow> app" where
  "select_news item s = (case item of Typed t \<Rightarrow> s | Listed n \<Rightarrow> s\<lparr>selectedNews := Some n\<rparr>)"

text \<open>
  \<^verbatim>\<open>handleAnalyze\<close>. The lookup is in the component's copy \<^verbatim>\<open>cachedAnalyses\<close> of the last
  \<^verbatim>\<open>fetchCache\<close>, not in the table. On a miss the engine is asked; a failure is caught
  and logged and changes nothing but \<^verbatim>\<open>loading\<close>. Reading \<^verbatim>\<open>analysis.riskScore\<close> of
  \<^verbatim>\<open>null\<close> throws after \<^verbatim>\<open>setCurrentAnalysis\<close> and before the save.
\<close>

definition handleAnalyze :: "target \<Rightarrow> app \<times> world \<Rightarrow> app \<times> world" where
  "handleAnalyze item = (\<lambda>(s, w).
     let headline = headline_of item;
         i = identity_of item w
     in case find (\<lambda>c. c_id c = i) (cachedAnalyses s) of
          Some cached \<Rightarrow>
            (select_news item (s\<lparr>currentAnalysis := c_analysis cached\<rparr>)\<lparr>loading := False\<rparr>, w)
        | None \<Rightarrow>
            (case analyzeHeadline headline w of
               (Inl e, w1) \<Rightarrow> (s\<lparr>loading := False\<rparr>, w1)
             | (Inr analysis, w1) \<Rightarrow>
                 if analysis = JNull
                 then (s\<lparr>currentAnalysis := JNull, loading := False\<rparr>, w1)
                 else
                   let w2 = saveToCache i headline analysis (riskScore analysis) w1
                   in (select_news item
                         (s\<lparr>currentAnalysis := analysis, cachedAnalyses := fetchCache w2\<rparr>)
                          \<lparr>loading := False\<rparr>, w2)))"

text \<open>
  The loop of \<^verbatim>\<open>init\<close> over the items to analyse. It sits inside the one \<^verbatim>\<open>try\<close> of
  \<^verbatim>\<open>init\<close>: the first failure leaves the loop. The result is the error that ended the
  loop, if any, and the world as the loop left it.
\<close>

fun backfill :: "NewsItem list \<Rightarrow> world \<Rightarrow> error option \<times> world" where
  "backfill [] w = (None, w)"
| "backfill (item # rest) w =
     (case analyzeHeadline (n_headline item) w of
        (Inl e, w1) \<Rightarrow> (Some e, w1)
      | (Inr analysis, w1) \<Rightarrow>
          if analysis = JNull then (Some TypeError, w1)
          else backfill rest
                 (saveToCache (n_id item) (n_headline item) analysis (riskScore analysis) w1))"


section \<open>The aggregates computed in \<^verbatim>\<open>App\<close>\<close>

text \<open>
  What JavaScript does with a score that is a text, which is not in the repository
  either: whether \<^verbatim>\<open>t >= 7\<close> holds of the text \<open>t\<close>, and the number that
  \<^verbatim>\<open>(sum / length).toFixed(1)\<close> denotes when some of the scores added are texts (the sum
  is then a concatenation of strings), \<open>None\<close> when it denotes no finite number.
\<close>

record runtime =
  text_ge7 :: "string \<Rightarrow> bool"
  text_index :: "score list \<Rightarrow> rat option"




record critical_event =
  e_headline :: string
  e_score :: score
  e_analysis :: json

text \<open>\<^verbatim>\<open>c.risk_score >= 7\<close>; \<^verbatim>\<open>null >= 7\<close> is false.\<close>

definition is_critical :: "runtime \<Rightarrow> CachedAnalysis \<Rightarrow> bool" where
  "is_critical rt c =
     (case c_risk_score c of SNull \<Rightarrow> False | SNum v \<Rightarrow> v \<ge> 7 | SText t \<Rightarrow> text_ge7 rt t)"

definition to_event :: "CachedAnalysis \<Rightarrow> critical_event" where
  "to_event c = \<lparr>e_headline = c_headline c, e_score = c_risk_score c, e_analysis = c_analysis c\<rparr>"

definition criticalEvents :: "runtime \<Rightarrow> CachedAnalysis list \<Rightarrow> critical_event list" where
  "criticalEvents rt cached = take 5 (map to_event (filter (is_critical rt) cached))"

text \<open>\<^verbatim>\<open>toLowerCase\<close> on ASCII text.\<close>

definition lower_char :: "char \<Rightarrow> char" where
  "lower_char c =
     (let n = of_char c :: nat in if 65 \<le> n \<and> n \<le> 90 then char_of (n + 32) else c)"

definition toLowerCase :: "string \<Rightarrow> string" where
  "toLowerCase s = map lower_char s"

fun starts_with :: "string \<Rightarrow> string \<Rightarrow> bool" where
  "starts_with s [] = True"
| "starts_with [] (y # ys) = False"
| "starts_with (x # xs) (y # ys) = (x = y \<and> starts_with xs ys)"

text \<open>\<^verbatim>\<open>s.includes(t)\<close>: \<open>t\<close> occurs in \<open>s\<close> as a run of consecutive characters.\<close>

fun includes_str :: "string \<Rightarrow> string \<Rightarrow> bool" where
  "includes_str [] t = (t = [])"
| "includes_str (x # xs) t = (starts_with (x # xs) t \<or> includes_str xs t)"

text \<open>
  An entry of the object \<^verbatim>\<open>sectors\<close>: label, \<^verbatim>\<open>count\<close>, \<^verbatim>\<open>reason\<close>. The entries are in
  the order of the object literal, which is the order of \<^verbatim>\<open>Object.keys\<close>.
\<close>

type_synonym sector = "string \<times> nat \<times> json option list"

definition sectors :: "sector list" where
  "sectors =
     [(''Energy'', 0, []), (''Defense'', 0, []), (''Semiconductors'', 0, []),
      (''Shipping'', 0, []), (''Banking'', 0, []), (''Technology'', 0, [])]"

text \<open>The test of the innermost loop: the industry contains the label, both in lower case.\<close>

definition matches :: "string \<Rightarrow> string \<Rightarrow> bool" where
  "matches ind s = includes_str (toLowerCase ind) (toLowerCase s)"

definition touch :: "string \<Rightarrow> json option \<Rightarrow> sector \<Rightarrow> sector" where
  "touch ind consequences = (\<lambda>(s, count, reason).
     if matches ind s
     then (s, count + 1, if length reason < 2 then reason @ [consequences] else reason)
     else (s, count, reason))"

text \<open>
  \<^verbatim>\<open>analysis.industries.forEach(ind => ... ind.toLowerCase() ...)\<close> needs an array of
  strings; anything else throws a \<^verbatim>\<open>TypeError\<close>, which leaves the whole computation.
\<close>

fun strings :: "json list \<Rightarrow> string list option" where
  "strings [] = Some []"
| "strings (JStr s # vs) = (case strings vs of None \<Rightarrow> None | Some ss \<Rightarrow> Some (s # ss))"
| "strings (v # vs) = None"

definition industries :: "json \<Rightarrow> string list option" where
  "industries analysis =
     (case field ''industries'' analysis of Some (JArr vs) \<Rightarrow> strings vs | _ \<Rightarrow> None)"

fun tally :: "CachedAnalysis list \<Rightarrow> sector list \<Rightarrow> sector list option" where
  "tally [] ss = Some ss"
| "tally (c # cs) ss =
     (case industries (c_analysis c) of
        None \<Rightarrow> None
      | Some inds \<Rightarrow>
          tally cs
            (foldl (\<lambda>ss ind. map (touch ind (field ''consequences'' (c_analysis c))) ss) ss inds))"

definition sectorImpacts :: "CachedAnalysis list \<Rightarrow> error + sector list" where
  "sectorImpacts cached =
     (case tally cached sectors of
        None \<Rightarrow> Inl TypeError
      | Some ss \<Rightarrow> Inr (filter (\<lambda>(s, count, reason). count > 0) ss))"

text \<open>
  For stating what \<^verbatim>\<open>sectorImpacts\<close> counts: the industry strings of an analysis (none
  when \<^verbatim>\<open>industries\<close> is not an array of strings), and the number of industry strings
  in the cached records that match a sector label.
\<close>

definition industry_list :: "json \<Rightarrow> string list" where
  "industry_list analysis = (case industries analysis of None \<Rightarrow> [] | Some inds \<Rightarrow> inds)"

definition match_count :: "string \<Rightarrow> CachedAnalysis list \<Rightarrow> nat" where
  "match_count s cached =
     sum_list (map (\<lambda>c. length (filter (\<lambda>ind. matches ind s) (industry_list (c_analysis c)))) cached)"


section \<open>Replayed writes\<close>

text \<open>A sequence of writes, each with the second at which it is executed.\<close>

fun replay ::
  "(nat \<times> string \<times> string \<times> json \<times> score) list \<Rightarrow> analysis_cache \<Rightarrow> analysis_cache" where
  "replay [] tbl = tbl"
| "replay ((now, i, h, a, r) # ps) tbl = replay ps (insert_or_replace now i h a r tbl)"

section \<open>Runs and sample data\<close>


text \<open>The state of \<^verbatim>\<open>App\<close> when it mounts: the initial values of its \<^verbatim>\<open>useState\<close> calls.\<close>

definition initial_app :: app where
  "initial_app =
     \<lparr>news = [], cachedAnalyses = [], selectedNews = None, currentAnalysis = JNull,
      loading = False, isInitializing = True\<rparr>"

text \<open>
  An empty table at time 0, with the given future of the engine. No sample run below
  writes a score that is not a number, \<^verbatim>\<open>null\<close> or missing, and no sample record has a
  text for a score: the driver of the sample world and the sample runtime are never
  asked, and are set to refuse.
\<close>

definition fresh_world :: "(nat \<times> outcome) list \<Rightarrow> world" where
  "fresh_world eng = \<lparr>db = [], clock = 0, engine = eng, calls = [], driver = (\<lambda>v. None)\<rparr>"

definition sample_runtime :: runtime where
  "sample_runtime = \<lparr>text_ge7 = (\<lambda>t. False), text_index = (\<lambda>rs. None)\<rparr>"


text \<open>Item number \<open>k\<close> of a feed whose identities and headlines are numbered.\<close>

definition wire :: "nat \<Rightarrow> NewsItem" where
  "wire k = \<lparr>n_id = ''guid-'' @ decimal k, n_headline = ''headline '' @ decimal k,
     n_source = ''Google News'', n_date = [], n_link = []\<rparr>"

text \<open>An answer of the engine, and the record that analysing item \<open>k\<close> in second \<open>k + 1\<close> leaves.\<close>

definition sample_analysis :: json where
  "sample_analysis = JObj [(''riskScore'', JNum 8), (''region'', JStr ''Taiwan'')]"

definition stored :: "nat \<Rightarrow> CachedAnalysis" where
  "stored k = \<lparr>c_id = n_id (wire k), c_headline = n_headline (wire k),
     c_analysis = sample_analysis, c_risk_score = SNum 8, c_timestamp = Suc k\<rparr>"

section \<open>Properties of the store\<close>

lemma ids_insert_or_replace:
  "map c_id (insert_or_replace now i h a r tbl) = filter (\<lambda>j. j \<noteq> i) (map c_id tbl) @ [i]"
  by (simp add: insert_or_replace_def filter_map comp_def)

lemma distinct_insert_or_replace:
  "distinct (map c_id tbl) \<Longrightarrow> distinct (map c_id (insert_or_replace now i h a r tbl))"
  by (simp add: ids_insert_or_replace)

lemma distinct_replay:
  "distinct (map c_id tbl) \<Longrightarrow> distinct (map c_id (replay ps tbl))"
  by (induction ps tbl rule: replay.induct) (simp_all add: distinct_insert_or_replace)

lemma count_insert_or_replace:
  "length (filter (\<lambda>c. c_id c = i) (insert_or_replace now i h a r tbl)) = 1"
  by (simp add: insert_or_replace_def)

lemma distinct_count_le_one:
  "distinct xs \<Longrightarrow> length (filter (\<lambda>j. j = i) xs) \<le> 1"
  by (induction xs) (auto simp: filter_empty_conv)

lemma rows_insert_or_replace:
  "filter (\<lambda>c. c_id c = i) (insert_or_replace now i h a r tbl) =
     [\<lparr>c_id = i, c_headline = h, c_analysis = a, c_risk_score = r, c_timestamp = now\<rparr>]"
  by (simp add: insert_or_replace_def)

lemma others_insert_or_replace:
  "filter (\<lambda>c. c_id c \<noteq> i) (insert_or_replace now i h a r tbl) = filter (\<lambda>c. c_id c \<noteq> i) tbl"
  by (simp add: insert_or_replace_def)

text \<open>
  C3. Whatever writes are replayed on an empty table, no identity occurs in two rows. A
  write leaves, whatever the table held before, exactly one row for its identity, which
  is the row written, and leaves the rows of the other identities as they were; the
  same write done twice leaves exactly one row.
\<close>

theorem store_one_record_per_identity:
  "distinct (map c_id (replay ps []))
   \<and> length (filter (\<lambda>c. c_id c = i) (replay ps [])) \<le> 1
   \<and> length (filter (\<lambda>c. c_id c = i) (insert_or_replace now i h a r tbl)) = 1
   \<and> filter (\<lambda>c. c_id c = i) (insert_or_replace now i h a r tbl) =
       [\<lparr>c_id = i, c_headline = h, c_analysis = a, c_risk_score = r, c_timestamp = now\<rparr>]
   \<and> filter (\<lambda>c. c_id c \<noteq> i) (insert_or_replace now i h a r tbl) = filter (\<lambda>c. c_id c \<noteq> i) tbl
   \<and> length (filter (\<lambda>c. c_id c = i)
        (insert_or_replace now' i h a r (insert_or_replace now i h a r tbl))) = 1"
proof -
  have d: "distinct (map c_id (replay ps []))"
    by (rule distinct_replay) simp
  have "length (filter (\<lambda>j. j = i) (map c_id (replay ps []))) \<le> 1"
    using d by (rule distinct_count_le_one)
  then have "length (filter (\<lambda>c. c_id c = i) (replay ps [])) \<le> 1"
    by (simp add: filter_map comp_def)
  with d show ?thesis
    by (simp add: count_insert_or_replace rows_insert_or_replace others_insert_or_replace)
qed

text \<open>
  C6, as the claim states it: a record written at second 1 and overwritten at second 2
  would keep timestamp 1. The replacing row carries the time of the overwrite.
\<close>

theorem overwrite_keeps_createdAt_counterexample:
  "map c_timestamp
     (insert_or_replace 2 ''x'' ''headline'' JNull SNull
       (insert_or_replace 1 ''x'' ''headline'' JNull SNull [])) \<noteq> [1]"
  by (simp add: insert_or_replace_def)

text \<open>
  C6, amended. After a write for identity \<open>i\<close> at second \<open>now\<close> the one record of \<open>i\<close>
  has timestamp \<open>now\<close>, whatever the table held for \<open>i\<close> before: an overwrite resets the
  timestamp to the time of the overwrite.
\<close>

theorem overwrite_resets_timestamp:
  "filter (\<lambda>c. c_id c = i) (insert_or_replace now i h a r tbl) =
     [\<lparr>c_id = i, c_headline = h, c_analysis = a, c_risk_score = r, c_timestamp = now\<rparr>]"
  by (simp add: insert_or_replace_def)

lemma mset_order_by_timestamp_desc:
  "mset (order_by_timestamp_desc tbl) = mset tbl"
  by (simp add: order_by_timestamp_desc_def)

lemma sorted_order_by_timestamp_desc:
  "sorted_wrt (\<lambda>x y. c_timestamp y \<le> c_timestamp x) (order_by_timestamp_desc tbl)"
proof -
  have "sorted (map c_timestamp (sort_key c_timestamp (rev tbl)))"
    by (rule sorted_sort_key)
  then have "sorted_wrt (\<lambda>x y. c_timestamp x \<le> c_timestamp y) (sort_key c_timestamp (rev tbl))"
    by (simp add: sorted_map)
  then show ?thesis
    by (simp add: order_by_timestamp_desc_def sorted_wrt_rev)
qed

lemma length_select_recent:
  "length (select_recent tbl) = min 50 (length tbl)"
proof -
  have "length (order_by_timestamp_desc tbl) = length tbl"
    by (simp add: order_by_timestamp_desc_def)
  then show ?thesis
    by (simp add: select_recent_def min.commute)
qed

lemma sorted_select_recent:
  "sorted_wrt (\<lambda>x y. c_timestamp y \<le> c_timestamp x) (select_recent tbl)"
  unfolding select_recent_def
  by (rule sorted_wrt_take) (rule sorted_order_by_timestamp_desc)

lemma select_recent_most_recent:
  assumes "x \<in> set (select_recent tbl)"
    and "y \<in># mset tbl - mset (select_recent tbl)"
  shows "c_timestamp y \<le> c_timestamp x"
proof -
  let ?s = "order_by_timestamp_desc tbl"
  have "mset tbl = mset (take 50 ?s) + mset (drop 50 ?s)"
    by (metis append_take_drop_id mset_append mset_order_by_timestamp_desc)
  then have "mset tbl - mset (select_recent tbl) = mset (drop 50 ?s)"
    by (simp add: select_recent_def)
  with assms(2) have y: "y \<in> set (drop 50 ?s)"
    by simp
  have "sorted_wrt (\<lambda>x y. c_timestamp y \<le> c_timestamp x) (take 50 ?s @ drop 50 ?s)"
    using sorted_order_by_timestamp_desc[of tbl] by simp
  then show ?thesis
    using assms(1) y unfolding select_recent_def sorted_wrt_append by blast
qed

lemma mset_select_recent:
  "mset (select_recent tbl) \<subseteq># mset tbl"
proof -
  have "mset (take 50 (order_by_timestamp_desc tbl)) \<subseteq># mset (order_by_timestamp_desc tbl)"
    by (metis append_take_drop_id mset_append mset_subset_eq_add_left)
  then show ?thesis
    by (simp add: select_recent_def mset_order_by_timestamp_desc)
qed


text \<open>
  C5, as the claim states it: records of the same second would come out with the
  smaller identity first. Three records written in one second in the order b, a, c
  come out in the order b, a, c. (An engine that returned equal timestamps in reverse
  scan order would give c, a, b, which is not ascending either.)
\<close>

theorem listRecent_ties_by_identity_counterexample:
  "map c_id (select_recent
      (replay [(1, ''b'', ''h1'', JNull, SNull), (1, ''a'', ''h2'', JNull, SNull),
               (1, ''c'', ''h3'', JNull, SNull)] [])) = [''b'', ''a'', ''c'']
   \<and> map c_timestamp (select_recent
      (replay [(1, ''b'', ''h1'', JNull, SNull), (1, ''a'', ''h2'', JNull, SNull),
               (1, ''c'', ''h3'', JNull, SNull)] [])) = [1, 1, 1]"
  by (simp add: select_recent_def order_by_timestamp_desc_def insert_or_replace_def)

text \<open>
  C5, amended. The query takes no limit argument and names no tie-break. It returns
  \<open>min 50 n\<close> of the \<open>n\<close> records, ordered by timestamp descending, and no record left
  out is more recent than a record returned; the result is a function of the table.
\<close>

theorem listRecent_recent_first:
  "length (select_recent tbl) = min 50 (length tbl)
   \<and> mset (select_recent tbl) \<subseteq># mset tbl
   \<and> sorted_wrt (\<lambda>x y. c_timestamp y \<le> c_timestamp x) (select_recent tbl)
   \<and> (\<forall>x \<in> set (select_recent tbl). \<forall>y \<in># mset tbl - mset (select_recent tbl).
        c_timestamp y \<le> c_timestamp x)"
  using length_select_recent mset_select_recent sorted_select_recent select_recent_most_recent
  by blast

section \<open>Properties of the cache-gated analysis\<close>


lemma length_filter_mset_eq:
  "mset xs = mset ys \<Longrightarrow> length (filter P xs) = length (filter P ys)"
proof -
  assume "mset xs = mset ys"
  then have "size (filter_mset P (mset xs)) = size (filter_mset P (mset ys))"
    by (rule arg_cong)
  then show ?thesis
    by (simp only: mset_filter[symmetric] size_mset)
qed



lemma select_news_fields [simp]:
  "cachedAnalyses (select_news item s) = cachedAnalyses s"
  "currentAnalysis (select_news item s) = currentAnalysis s"
  "loading (select_news item s) = loading s"
  by (simp_all add: select_news_def split: target.splits)


lemma handleAnalyze_failure:
  assumes "find (\<lambda>c. c_id c = identity_of item w) (cachedAnalyses s) = None"
    and "analyzeHeadline (headline_of item) w = (Inl e, w1)"
  shows "handleAnalyze item (s, w) = (s\<lparr>loading := False\<rparr>, w1)"
  using assms by (simp add: handleAnalyze_def)

lemma handleAnalyze_success:
  assumes "find (\<lambda>c. c_id c = identity_of item w) (cachedAnalyses s) = None"
    and "analyzeHeadline (headline_of item) w = (Inr a, w1)" and "a \<noteq> JNull"
  shows "handleAnalyze item (s, w) =
    (select_news item
       (s\<lparr>currentAnalysis := a,
          cachedAnalyses := fetchCache
            (saveToCache (identity_of item w) (headline_of item) a (riskScore a) w1)\<rparr>)
        \<lparr>loading := False\<rparr>,
     saveToCache (identity_of item w) (headline_of item) a (riskScore a) w1)"
  using assms by (simp add: handleAnalyze_def Let_def)

lemma calls_saveToCache [simp]:
  "calls (saveToCache i h a r w) = calls w"
  by (simp add: saveToCache_def split: option.splits)

lemma engine_saveToCache [simp]:
  "engine (saveToCache i h a r w) = engine w"
  by (simp add: saveToCache_def split: option.splits)

lemma clock_saveToCache [simp]:
  "clock (saveToCache i h a r w) = clock w"
  by (simp add: saveToCache_def split: option.splits)

lemma driver_saveToCache [simp]:
  "driver (saveToCache i h a r w) = driver w"
  by (simp add: saveToCache_def split: option.splits)

lemma db_saveToCache:
  "db (saveToCache i h a r w) =
     (case stored_score w r of
        None \<Rightarrow> db w
      | Some sc \<Rightarrow> insert_or_replace (clock w div 1000) i h a sc (db w))"
  by (simp add: saveToCache_def split: option.splits)

lemma stored_score_simps [simp]:
  "stored_score w None = Some SNull"
  "stored_score w (Some JNull) = Some SNull"
  "stored_score w (Some (JNum q)) = Some (SNum q)"
  "stored_score w (Some (JStr t)) = driver w (JStr t)"
  "stored_score w (Some (JBool b)) = driver w (JBool b)"
  "stored_score w (Some (JArr vs)) = driver w (JArr vs)"
  "stored_score w (Some (JObj kvs)) = driver w (JObj kvs)"
  by (simp_all add: stored_score_def)

lemma stored_score_same_driver:
  "driver w' = driver w \<Longrightarrow> stored_score w' v = stored_score w v"
  by (simp add: stored_score_def split: option.splits json.splits)

lemma stored_score_after_call [simp]:
  "stored_score (w\<lparr>clock := c, engine := e, calls := l\<rparr>) v = stored_score w v"
  by (rule stored_score_same_driver) simp

lemma calls_analyzeHeadline:
  "calls (snd (analyzeHeadline h w)) = calls w @ [h]"
  by (simp add: analyzeHeadline_def split: list.splits prod.splits)

lemma db_analyzeHeadline:
  "db (snd (analyzeHeadline h w)) = db w"
  by (simp add: analyzeHeadline_def split: list.splits prod.splits)




lemma evicted_from_window:
  assumes "n \<le> length (filter (\<lambda>c. c_timestamp r < c_timestamp c) tbl)"
  shows "r \<notin> set (take n (order_by_timestamp_desc tbl))"
proof
  let ?s = "order_by_timestamp_desc tbl"
  let ?P = "\<lambda>c. c_timestamp r < c_timestamp c"
  assume rn: "r \<in> set (take n ?s)"
  have "sorted_wrt (\<lambda>x y. c_timestamp y \<le> c_timestamp x) (take n ?s @ drop n ?s)"
    using sorted_order_by_timestamp_desc[of tbl] by simp
  then have "\<forall>y \<in> set (drop n ?s). c_timestamp y \<le> c_timestamp r"
    using rn unfolding sorted_wrt_append by blast
  then have "filter ?P (drop n ?s) = []"
    by (auto simp: filter_empty_conv)
  then have "filter ?P ?s = filter ?P (take n ?s)"
    by (metis append_take_drop_id filter_append append_Nil2)
  moreover have "length (filter ?P (take n ?s)) < length (take n ?s)"
    by (rule length_filter_less[OF rn]) simp
  moreover have "length (filter ?P ?s) = length (filter ?P tbl)"
    by (rule length_filter_mset_eq[OF mset_order_by_timestamp_desc])
  ultimately have "length (filter ?P tbl) < n"
    by simp
  with assms show False by simp
qed

lemma evicted_from_select_recent:
  assumes "50 \<le> length (filter (\<lambda>c. c_timestamp r < c_timestamp c) tbl)"
  shows "r \<notin> set (select_recent tbl)"
  unfolding select_recent_def using assms by (rule evicted_from_window)










lemma handleAnalyze_null:
  assumes "find (\<lambda>c. c_id c = identity_of item w) (cachedAnalyses s) = None"
    and "analyzeHeadline (headline_of item) w = (Inr JNull, w1)"
  shows "handleAnalyze item (s, w) = (s\<lparr>currentAnalysis := JNull, loading := False\<rparr>, w1)"
  using assms by (simp add: handleAnalyze_def)












text \<open>
  C2. If the engine fails on a miss, the table and the copy of it are unchanged, and
  the next request for the same identity calls the engine again.
\<close>

theorem failure_writes_nothing_and_is_retried:
  assumes miss: "find (\<lambda>c. c_id c = identity_of item w) (cachedAnalyses s) = None"
    and fail: "fst (analyzeHeadline (headline_of item) w) = Inl e"
    and same: "identity_of item' (snd (handleAnalyze item (s, w))) = identity_of item w"
  shows "db (snd (handleAnalyze item (s, w))) = db w
       \<and> cachedAnalyses (fst (handleAnalyze item (s, w))) = cachedAnalyses s
       \<and> calls (snd (handleAnalyze item (s, w))) = calls w @ [headline_of item]
       \<and> calls (snd (handleAnalyze item' (handleAnalyze item (s, w)))) =
           calls w @ [headline_of item, headline_of item']"
proof -
  obtain w1 where an: "analyzeHeadline (headline_of item) w = (Inl e, w1)"
    using fail by (cases "analyzeHeadline (headline_of item) w") simp
  have step: "handleAnalyze item (s, w) = (s\<lparr>loading := False\<rparr>, w1)"
    by (rule handleAnalyze_failure[OF miss an])
  have w1: "db w1 = db w" "calls w1 = calls w @ [headline_of item]"
    using db_analyzeHeadline[of "headline_of item" w] calls_analyzeHeadline[of "headline_of item" w]
    by (simp_all add: an)
  from same have same': "identity_of item' w1 = identity_of item w"
    by (simp add: step)
  have miss': "find (\<lambda>c. c_id c = identity_of item' w1) (cachedAnalyses (s\<lparr>loading := False\<rparr>)) = None"
    using miss same' by simp
  have again: "calls (snd (handleAnalyze item' (s\<lparr>loading := False\<rparr>, w1))) = calls w1 @ [headline_of item']"
  proof (cases "analyzeHeadline (headline_of item') w1")
    case (Pair res w2)
    then have c2: "calls w2 = calls w1 @ [headline_of item']"
      using calls_analyzeHeadline[of "headline_of item'" w1] by simp
    show ?thesis
    proof (cases res)
      case (Inl e')
      then show ?thesis
        using handleAnalyze_failure[OF miss'] Pair c2 by simp
    next
      case (Inr a)
      show ?thesis
      proof (cases "a = JNull")
        case True
        then show ?thesis
          using miss' Pair Inr c2 by (simp add: handleAnalyze_def)
      next
        case False
        then show ?thesis
          using handleAnalyze_success[OF miss' _ False] Pair Inr c2 by simp
      qed
    qed
  qed
  show ?thesis
    unfolding step using w1 again by simp
qed

theorem failure_writes_nothing_and_is_retried_witness:
  "db (snd (handleAnalyze (Listed (wire 0))
      (initial_app, fresh_world [(1000, Rejected), (1000, Text sample_analysis)]))) = []
   \<and> calls (snd (handleAnalyze (Listed (wire 0)) (handleAnalyze (Listed (wire 0))
      (initial_app, fresh_world [(1000, Rejected), (1000, Text sample_analysis)])))) =
     [n_headline (wire 0), n_headline (wire 0)]"
proof -
  let ?w = "fresh_world [(1000, Rejected), (1000, Text sample_analysis)]"
  let ?item = "Listed (wire 0)"
  have miss: "find (\<lambda>c. c_id c = identity_of ?item ?w) (cachedAnalyses initial_app) = None"
    by (simp add: initial_app_def)
  have fail: "fst (analyzeHeadline (headline_of ?item) ?w) = Inl EngineError"
    by (simp add: analyzeHeadline_def fresh_world_def)
  have same: "identity_of ?item (snd (handleAnalyze ?item (initial_app, ?w))) = identity_of ?item ?w"
    by (simp add: identity_of_def)
  show ?thesis
    using failure_writes_nothing_and_is_retried[OF miss fail same]
    by (simp add: fresh_world_def headline_of_def)
qed

theorem listRecent_recent_first_witness:
  "hd (select_recent (map stored [0..<51])) \<in> set (select_recent (map stored [0..<51]))
   \<and> stored 0 \<in># mset (map stored [0..<51]) - mset (select_recent (map stored [0..<51]))
   \<and> c_timestamp (stored 0) \<le> c_timestamp (hd (select_recent (map stored [0..<51])))"
proof -
  let ?tbl = "map stored [0..<51]"
  have "length (select_recent ?tbl) = 50"
    by (simp add: length_select_recent)
  then have "select_recent ?tbl \<noteq> []"
    by auto
  then have x: "hd (select_recent ?tbl) \<in> set (select_recent ?tbl)"
    by simp
  have split: "[0..<51] = 0 # [1..<51]"
    by (simp add: upt_conv_Cons)
  have "filter (\<lambda>c. c_timestamp (stored 0) < c_timestamp c) (map stored [1..<51]) = map stored [1..<51]"
    by (rule filter_True) (auto simp: stored_def)
  then have "length (filter (\<lambda>c. c_timestamp (stored 0) < c_timestamp c) ?tbl) = 50"
    unfolding split by (simp add: stored_def)
  then have "stored 0 \<notin> set (select_recent ?tbl)"
    by (intro evicted_from_select_recent) simp
  then have "count (mset (select_recent ?tbl)) (stored 0) = 0"
    by (simp add: count_eq_zero_iff)
  moreover have "stored 0 \<in> set ?tbl"
    by simp
  then have "0 < count (mset ?tbl) (stored 0)"
    by (simp only: count_greater_zero_iff set_mset_mset)
  ultimately have y: "stored 0 \<in># mset ?tbl - mset (select_recent ?tbl)"
    by (simp only: in_diff_count)
  from listRecent_recent_first[of ?tbl] x y
  show ?thesis
    by blast
qed

section \<open>Properties of the start-up backfill\<close>

lemma backfill_append:
  "backfill (xs @ ys) w =
     (case backfill xs w of (Some e, w1) \<Rightarrow> (Some e, w1) | (None, w1) \<Rightarrow> backfill ys w1)"
  by (induction xs arbitrary: w) (auto split: prod.splits sum.splits option.splits)











section \<open>Properties of the response handling\<close>

text \<open>
  C10, as the claim states it: an empty or structurally invalid payload would make the
  request fail and leave no record. A response without text is shown as the analysis
  \<^verbatim>\<open>{}\<close> and a record is written for the identity; so is an object that has none of
  the required properties but \<^verbatim>\<open>riskScore\<close>.
\<close>

theorem malformed_response_rejected_counterexample:
  "currentAnalysis (fst (handleAnalyze (Listed (wire 0))
      (initial_app, fresh_world [(1000, NoText)]))) = JObj []
   \<and> map c_id (db (snd (handleAnalyze (Listed (wire 0))
      (initial_app, fresh_world [(1000, NoText)])))) = [n_id (wire 0)]
   \<and> map c_id (db (snd (handleAnalyze (Listed (wire 0))
      (initial_app, fresh_world [(1000, Text (JObj [(''riskScore'', JNum 3)]))])))) = [n_id (wire 0)]"
  by (simp add: handleAnalyze_def analyzeHeadline_def fresh_world_def initial_app_def
      saveToCache_def riskScore_def insert_or_replace_def identity_of_def headline_of_def Let_def)

text \<open>
  C10, amended. On a miss, a text that is not JSON makes the request fail and nothing
  is written or shown; so does the JSON value \<^verbatim>\<open>null\<close>, except that it is shown. A
  missing or empty text counts as \<^verbatim>\<open>{}\<close>, and every other JSON value is accepted
  without a look at its shape: it is shown, and it is written under the identity with
  the score that the insert stores for its \<^verbatim>\<open>riskScore\<close>, which is \<^verbatim>\<open>NULL\<close> when the
  property is missing and the number when it is a number, unless the insert throws.
\<close>

theorem only_unparsable_text_is_rejected:
  assumes miss: "find (\<lambda>c. c_id c = identity_of item w) (cachedAnalyses s) = None"
    and eng: "engine w = (d, out) # rest"
  shows "(out = BadText \<longrightarrow>
            db (snd (handleAnalyze item (s, w))) = db w
          \<and> cachedAnalyses (fst (handleAnalyze item (s, w))) = cachedAnalyses s
          \<and> currentAnalysis (fst (handleAnalyze item (s, w))) = currentAnalysis s)
       \<and> (out = NoText \<longrightarrow>
            currentAnalysis (fst (handleAnalyze item (s, w))) = JObj []
          \<and> db (snd (handleAnalyze item (s, w))) =
              insert_or_replace ((clock w + d) div 1000) (identity_of item w) (headline_of item)
                (JObj []) SNull (db w))
       \<and> (\<forall>v. out = Text v \<and> v \<noteq> JNull \<longrightarrow>
            currentAnalysis (fst (handleAnalyze item (s, w))) = v
          \<and> db (snd (handleAnalyze item (s, w))) =
              (case stored_score w (field ''riskScore'' v) of
                 None \<Rightarrow> db w
               | Some sc \<Rightarrow>
                   insert_or_replace ((clock w + d) div 1000) (identity_of item w)
                     (headline_of item) v sc (db w)))
       \<and> stored_score w None = Some SNull
       \<and> stored_score w (Some JNull) = Some SNull
       \<and> stored_score w (Some (JNum q)) = Some (SNum q)
       \<and> (out = Text JNull \<longrightarrow>
            db (snd (handleAnalyze item (s, w))) = db w
          \<and> currentAnalysis (fst (handleAnalyze item (s, w))) = JNull)"
proof -
  let ?w1 = "w\<lparr>clock := clock w + d, engine := rest, calls := calls w @ [headline_of item]\<rparr>"
  have an: "analyzeHeadline (headline_of item) w = (parse_response out, ?w1)"
    using eng by (simp add: analyzeHeadline_def)
  have bad: "out = BadText \<Longrightarrow> handleAnalyze item (s, w) = (s\<lparr>loading := False\<rparr>, ?w1)"
    using handleAnalyze_failure[OF miss, of SyntaxError ?w1] an by simp
  have good: "handleAnalyze item (s, w) =
      (select_news item
         (s\<lparr>currentAnalysis := v,
            cachedAnalyses := fetchCache
              (saveToCache (identity_of item w) (headline_of item) v (riskScore v) ?w1)\<rparr>)
          \<lparr>loading := False\<rparr>,
       saveToCache (identity_of item w) (headline_of item) v (riskScore v) ?w1)"
    if "parse_response out = Inr v" "v \<noteq> JNull" for v
    using handleAnalyze_success[OF miss _ that(2), of ?w1] an that(1) by simp
  have null: "out = Text JNull \<Longrightarrow>
      handleAnalyze item (s, w) = (s\<lparr>currentAnalysis := JNull, loading := False\<rparr>, ?w1)"
    using handleAnalyze_null[OF miss, of ?w1] an by simp
  have empty: "riskScore (JObj []) = None"
    by (simp add: riskScore_def)
  have c1: "out = BadText \<longrightarrow>
            db (snd (handleAnalyze item (s, w))) = db w
          \<and> cachedAnalyses (fst (handleAnalyze item (s, w))) = cachedAnalyses s
          \<and> currentAnalysis (fst (handleAnalyze item (s, w))) = currentAnalysis s"
    using bad by simp
  have c2: "out = NoText \<longrightarrow>
            currentAnalysis (fst (handleAnalyze item (s, w))) = JObj []
          \<and> db (snd (handleAnalyze item (s, w))) =
              insert_or_replace ((clock w + d) div 1000) (identity_of item w) (headline_of item)
                (JObj []) SNull (db w)"
    using good[of "JObj []"] by (simp add: db_saveToCache empty)
  have c3: "\<forall>v. out = Text v \<and> v \<noteq> JNull \<longrightarrow>
            currentAnalysis (fst (handleAnalyze item (s, w))) = v
          \<and> db (snd (handleAnalyze item (s, w))) =
              (case stored_score w (field ''riskScore'' v) of
                 None \<Rightarrow> db w
               | Some sc \<Rightarrow>
                   insert_or_replace ((clock w + d) div 1000) (identity_of item w)
                     (headline_of item) v sc (db w))"
  proof (intro allI impI)
    fix v
    assume v: "out = Text v \<and> v \<noteq> JNull"
    then have "parse_response out = Inr v" "v \<noteq> JNull" by simp_all
    from good[OF this] show "currentAnalysis (fst (handleAnalyze item (s, w))) = v
          \<and> db (snd (handleAnalyze item (s, w))) =
              (case stored_score w (field ''riskScore'' v) of
                 None \<Rightarrow> db w
               | Some sc \<Rightarrow>
                   insert_or_replace ((clock w + d) div 1000) (identity_of item w)
                     (headline_of item) v sc (db w))"
      by (simp add: db_saveToCache riskScore_def split: option.splits)
  qed
  have c4: "out = Text JNull \<longrightarrow>
            db (snd (handleAnalyze item (s, w))) = db w
          \<and> currentAnalysis (fst (handleAnalyze item (s, w))) = JNull"
    using null by simp
  show ?thesis
    using c1 c2 c3 c4 by simp
qed

theorem only_unparsable_text_is_rejected_witness:
  "db (snd (handleAnalyze (Listed (wire 0)) (initial_app, fresh_world [(1000, BadText)]))) = []
   \<and> db (snd (handleAnalyze (Listed (wire 0)) (initial_app, fresh_world [(1000, NoText)]))) =
       [\<lparr>c_id = n_id (wire 0), c_headline = n_headline (wire 0), c_analysis = JObj [],
         c_risk_score = SNull, c_timestamp = 1\<rparr>]
   \<and> db (snd (handleAnalyze (Listed (wire 0))
         (initial_app, fresh_world [(1000, Text sample_analysis)]))) = [stored 0]
   \<and> db (snd (handleAnalyze (Listed (wire 0)) (initial_app, fresh_world [(1000, Text JNull)]))) = []"
proof -
  let ?item = "Listed (wire 0)"
  have miss: "find (\<lambda>c. c_id c = identity_of ?item (fresh_world e)) (cachedAnalyses initial_app) = None"
    for e by (simp add: initial_app_def)
  have eng: "engine (fresh_world [(1000, out)]) = (1000, out) # []" for out
    by (simp add: fresh_world_def)
  have nn: "sample_analysis \<noteq> JNull"
    by (simp add: sample_analysis_def)
  have rs: "field ''riskScore'' sample_analysis = Some (JNum 8)"
    by (simp add: sample_analysis_def)
  show ?thesis
    using only_unparsable_text_is_rejected[OF miss eng, of BadText]
      only_unparsable_text_is_rejected[OF miss eng, of NoText]
      only_unparsable_text_is_rejected[OF miss eng, of "Text sample_analysis"]
      only_unparsable_text_is_rejected[OF miss eng, of "Text JNull"] nn
    by (simp add: fresh_world_def insert_or_replace_def identity_of_def headline_of_def
        stored_def rs)
qed

section \<open>Properties of the aggregates\<close>

















lemma criticalEvents_rows:
  "criticalEvents rt cached = map to_event (take 5 (filter (is_critical rt) cached))"
  by (simp add: criticalEvents_def take_map)

lemma sorted_wrt_filter_desc:
  "sorted_wrt R xs \<Longrightarrow> sorted_wrt R (filter P xs)"
  by (induction xs) auto

text \<open>
  C7. Computed from what \<^verbatim>\<open>fetchCache\<close> returns for any state of the store, the
  critical events are at most 5, they are the events of the first five cached records
  with a score of at least 7 in the order of the cache, which is most recent first, and
  each carries a score that is a number of at least 7, or a text of which
  \<^verbatim>\<open>t >= 7\<close> holds in JavaScript.
\<close>

theorem critical_events_shape:
  "length (criticalEvents rt (fetchCache w)) \<le> 5
   \<and> criticalEvents rt (fetchCache w) =
       map to_event (take 5 (filter (is_critical rt) (fetchCache w)))
   \<and> sorted_wrt (\<lambda>x y. c_timestamp y \<le> c_timestamp x)
        (take 5 (filter (is_critical rt) (fetchCache w)))
   \<and> (\<forall>e \<in> set (criticalEvents rt (fetchCache w)).
        (\<exists>v. e_score e = SNum v \<and> 7 \<le> v) \<or> (\<exists>t. e_score e = SText t \<and> text_ge7 rt t))"
proof -
  have len: "length (criticalEvents rt (fetchCache w)) \<le> 5"
    by (simp add: criticalEvents_def)
  have "sorted_wrt (\<lambda>x y. c_timestamp y \<le> c_timestamp x) (filter (is_critical rt) (fetchCache w))"
    unfolding fetchCache_def by (rule sorted_wrt_filter_desc[OF sorted_select_recent])
  then have sorted: "sorted_wrt (\<lambda>x y. c_timestamp y \<le> c_timestamp x)
      (take 5 (filter (is_critical rt) (fetchCache w)))"
    by (rule sorted_wrt_take)
  have score: "(\<exists>v. e_score e = SNum v \<and> 7 \<le> v) \<or> (\<exists>t. e_score e = SText t \<and> text_ge7 rt t)"
    if "e \<in> set (criticalEvents rt (fetchCache w))" for e
  proof -
    from that obtain c where "c \<in> set (take 5 (filter (is_critical rt) (fetchCache w)))"
      and e: "e = to_event c"
      unfolding criticalEvents_rows by auto
    then have "is_critical rt c"
      using in_set_takeD by fastforce
    then show ?thesis
      by (cases "c_risk_score c") (simp_all add: is_critical_def to_event_def e)
  qed
  show ?thesis
    using len criticalEvents_rows sorted score by blast
qed

theorem critical_events_shape_witness:
  "to_event (stored 0)
     \<in> set (criticalEvents sample_runtime (fetchCache ((fresh_world [])\<lparr>db := [stored 0]\<rparr>)))
   \<and> (\<exists>v. e_score (to_event (stored 0)) = SNum v \<and> 7 \<le> v)"
proof -
  let ?w = "(fresh_world [])\<lparr>db := [stored 0]\<rparr>"
  have "fetchCache ?w = [stored 0]"
    by (simp add: fetchCache_def select_recent_def order_by_timestamp_desc_def)
  then have in_events: "to_event (stored 0) \<in> set (criticalEvents sample_runtime (fetchCache ?w))"
    by (simp add: criticalEvents_def is_critical_def stored_def)
  have "\<not> (\<exists>t. e_score (to_event (stored 0)) = SText t \<and> text_ge7 sample_runtime t)"
    by (simp add: to_event_def stored_def)
  with critical_events_shape[of sample_runtime ?w] in_events show ?thesis
    by blast
qed

lemma starts_with_iff: "starts_with s t \<longleftrightarrow> (\<exists>q. s = t @ q)"
  by (induction s t rule: starts_with.induct) auto

lemma includes_str_iff: "includes_str s t \<longleftrightarrow> (\<exists>p q. s = p @ t @ q)"
proof (induction s)
  case Nil
  then show ?case by simp
next
  case (Cons x xs)
  show ?case
  proof
    assume "includes_str (x # xs) t"
    then consider "starts_with (x # xs) t" | "includes_str xs t" by auto
    then show "\<exists>p q. x # xs = p @ t @ q"
    proof cases
      case 1
      then obtain q where "x # xs = [] @ t @ q" by (auto simp: starts_with_iff)
      then show ?thesis by blast
    next
      case 2
      then obtain p q where "xs = p @ t @ q" using Cons.IH by blast
      then have "x # xs = (x # p) @ t @ q" by simp
      then show ?thesis by blast
    qed
  next
    assume "\<exists>p q. x # xs = p @ t @ q"
    then obtain p q where pq: "x # xs = p @ t @ q" by blast
    show "includes_str (x # xs) t"
    proof (cases p)
      case Nil
      with pq have "starts_with (x # xs) t" by (auto simp: starts_with_iff)
      then show ?thesis by simp
    next
      case (Cons y ys)
      with pq have "xs = ys @ t @ q" by simp
      then have "includes_str xs t" using Cons.IH by blast
      then show ?thesis by simp
    qed
  qed
qed

lemma touch_entry:
  "touch ind cons e =
     (fst e, fst (snd e) + (if matches ind (fst e) then 1 else 0),
      if matches ind (fst e) \<and> length (snd (snd e)) < 2 then snd (snd e) @ [cons] else snd (snd e))"
  by (cases e) (auto simp: touch_def)

lemma foldl_touch_counts:
  "map (\<lambda>e. (fst e, fst (snd e))) (foldl (\<lambda>ss ind. map (touch ind cons) ss) ss inds) =
   map (\<lambda>e. (fst e, fst (snd e) + length (filter (\<lambda>ind. matches ind (fst e)) inds))) ss"
proof (induction inds arbitrary: ss)
  case Nil
  then show ?case by simp
next
  case (Cons x inds)
  have "map (\<lambda>e. (fst e, fst (snd e)))
          (foldl (\<lambda>ss ind. map (touch ind cons) ss) ss (x # inds)) =
        map (\<lambda>e. (fst e, fst (snd e) + length (filter (\<lambda>ind. matches ind (fst e)) inds)))
          (map (touch x cons) ss)"
    by (simp only: foldl_Cons Cons.IH)
  also have "\<dots> =
        map (\<lambda>e. (fst e, fst (snd e) + length (filter (\<lambda>ind. matches ind (fst e)) (x # inds)))) ss"
    by (simp add: touch_entry)
  finally show ?case .
qed

lemma tally_counts:
  "tally cs ss = Some ss' \<Longrightarrow>
   map (\<lambda>e. (fst e, fst (snd e))) ss' =
   map (\<lambda>e. (fst e, fst (snd e) + match_count (fst e) cs)) ss"
proof (induction cs arbitrary: ss)
  case Nil
  then show ?case by (simp add: match_count_def)
next
  case (Cons c cs)
  from Cons.prems obtain inds where inds: "industries (c_analysis c) = Some inds"
    and rest: "tally cs (foldl (\<lambda>ss ind. map (touch ind (field ''consequences'' (c_analysis c))) ss)
                  ss inds) = Some ss'"
    by (auto split: option.splits)
  have il: "industry_list (c_analysis c) = inds"
    by (simp add: industry_list_def inds)
  have "map (\<lambda>e. (fst e, fst (snd e))) ss' =
        map (\<lambda>e. (fst e, fst (snd e) + match_count (fst e) cs))
          (foldl (\<lambda>ss ind. map (touch ind (field ''consequences'' (c_analysis c))) ss) ss inds)"
    by (rule Cons.IH[OF rest])
  also have "\<dots> = map (\<lambda>p. (fst p, snd p + match_count (fst p) cs))
      (map (\<lambda>e. (fst e, fst (snd e)))
        (foldl (\<lambda>ss ind. map (touch ind (field ''consequences'' (c_analysis c))) ss) ss inds))"
    by (simp add: comp_def)
  also have "\<dots> = map (\<lambda>e. (fst e, fst (snd e) + match_count (fst e) (c # cs))) ss"
    unfolding foldl_touch_counts by (simp add: comp_def match_count_def il)
  finally show ?case .
qed

lemma match_count_pos:
  "0 < match_count s cached \<longleftrightarrow>
     (\<exists>c \<in> set cached. \<exists>ind \<in> set (industry_list (c_analysis c)). matches ind s)"
proof -
  have "match_count s cached = 0 \<longleftrightarrow>
     (\<forall>c \<in> set cached. \<forall>ind \<in> set (industry_list (c_analysis c)). \<not> matches ind s)"
    by (simp add: match_count_def filter_empty_conv)
  then show ?thesis by auto
qed

lemma sectorImpacts_Inr:
  assumes "sectorImpacts cached = Inr res"
  shows "map fst res = filter (\<lambda>s. 0 < match_count s cached) (map fst sectors)"
    and "\<forall>entry \<in> set res. fst (snd entry) = match_count (fst entry) cached \<and> 0 < fst (snd entry)"
proof -
  from assms obtain ss where t: "tally cached sectors = Some ss"
    and res: "res = filter (\<lambda>(s, count, reason). count > 0) ss"
    by (auto simp: sectorImpacts_def split: option.splits)
  have zero: "map (\<lambda>e. (fst e, fst (snd e) + match_count (fst e) cached)) sectors =
              map (\<lambda>e. (fst e, match_count (fst e) cached)) sectors"
    by (simp add: sectors_def)
  note m = tally_counts[OF t, unfolded zero]
  have cnt: "fst (snd e) = match_count (fst e) cached" if "e \<in> set ss" for e
  proof -
    from that have "(fst e, fst (snd e)) \<in> set (map (\<lambda>e. (fst e, fst (snd e))) ss)"
      by force
    then have "(fst e, fst (snd e)) \<in> set (map (\<lambda>e. (fst e, match_count (fst e) cached)) sectors)"
      by (simp only: m)
    then show ?thesis by auto
  qed
  have labels: "map fst ss = map fst sectors"
    using arg_cong[OF m, of "map fst"] by (simp add: comp_def)
  have res': "res = filter (\<lambda>e. 0 < match_count (fst e) cached) ss"
    unfolding res
  proof (rule filter_cong[OF refl])
    fix e
    assume "e \<in> set ss"
    then show "(case e of (s, n, reason) \<Rightarrow> 0 < n) = (0 < match_count (fst e) cached)"
      using cnt[of e] by (simp add: case_prod_beta)
  qed
  have "map fst res = filter (\<lambda>s. 0 < match_count s cached) (map fst ss)"
    unfolding res' by (simp add: filter_map comp_def)
  then show "map fst res = filter (\<lambda>s. 0 < match_count s cached) (map fst sectors)"
    by (simp only: labels)
  show "\<forall>entry \<in> set res. fst (snd entry) = match_count (fst entry) cached \<and> 0 < fst (snd entry)"
    using cnt by (auto simp: res')
qed

text \<open>
  C8, as the claim states it: a record with industries \<^verbatim>\<open>["Semiconductor manufacturing"]\<close>
  would be counted under Semiconductors. The test is whether the industry contains the
  label, and "semiconductor manufacturing" does not contain "semiconductors": no sector
  is counted.
\<close>

theorem sector_matching_counterexample:
  "sectorImpacts
     [\<lparr>c_id = ''guid-1'', c_headline = ''Export controls widen'',
       c_analysis = JObj [(''industries'', JArr [JStr ''Semiconductor manufacturing'']),
                          (''consequences'', JStr ''Chip supply tightens'')],
       c_risk_score = SNum 8, c_timestamp = 1\<rparr>] = Inr []"
  by (simp add: sectorImpacts_def sectors_def industries_def touch_def matches_def
      toLowerCase_def lower_char_def)

text \<open>
  C8, amended. When the summary is computed, it lists, in the order of the labels,
  exactly the sectors whose label occurs, both in lower case, as a run of consecutive
  characters inside some industry string of some cached record; the count of a sector
  is the number of such industry strings, and no listed sector has count 0.
\<close>

theorem sector_matching:
  assumes "sectorImpacts cached = Inr res"
  shows "map fst res = filter (\<lambda>s. 0 < match_count s cached) (map fst sectors)
       \<and> (\<forall>entry \<in> set res. fst (snd entry) = match_count (fst entry) cached \<and> 0 < fst (snd entry))
       \<and> (0 < match_count s cached \<longleftrightarrow>
            (\<exists>c \<in> set cached. \<exists>ind \<in> set (industry_list (c_analysis c)). matches ind s))
       \<and> (matches ind s \<longleftrightarrow> (\<exists>p q. toLowerCase ind = p @ toLowerCase s @ q))"
proof -
  have d: "matches ind s \<longleftrightarrow> (\<exists>p q. toLowerCase ind = p @ toLowerCase s @ q)"
    by (simp only: matches_def includes_str_iff)
  show ?thesis
    by (intro conjI) (rule sectorImpacts_Inr[OF assms], rule sectorImpacts_Inr[OF assms],
        rule match_count_pos, rule d)
qed

theorem sector_matching_witness:
  "sectorImpacts
     [\<lparr>c_id = ''guid-1'', c_headline = ''Export controls widen'',
       c_analysis = JObj [(''industries'', JArr [JStr ''Semiconductors and chips'']),
                          (''consequences'', JStr ''Chip supply tightens'')],
       c_risk_score = SNum 8, c_timestamp = 1\<rparr>]
     = Inr [(''Semiconductors'', 1, [Some (JStr ''Chip supply tightens'')])]
   \<and> match_count ''Semiconductors''
     [\<lparr>c_id = ''guid-1'', c_headline = ''Export controls widen'',
       c_analysis = JObj [(''industries'', JArr [JStr ''Semiconductors and chips'']),
                          (''consequences'', JStr ''Chip supply tightens'')],
       c_risk_score = SNum 8, c_timestamp = 1\<rparr>] = 1"
proof -
  let ?cached = "[\<lparr>c_id = ''guid-1'', c_headline = ''Export controls widen'',
       c_analysis = JObj [(''industries'', JArr [JStr ''Semiconductors and chips'']),
                          (''consequences'', JStr ''Chip supply tightens'')],
       c_risk_score = SNum 8, c_timestamp = 1\<rparr>]"
  have h: "sectorImpacts ?cached = Inr [(''Semiconductors'', 1, [Some (JStr ''Chip supply tightens'')])]"
    by (simp add: sectorImpacts_def sectors_def industries_def touch_def matches_def
      toLowerCase_def lower_char_def)
  from sector_matching[OF h] have "1 = match_count ''Semiconductors'' ?cached"
    by simp
  with h show ?thesis by simp
qed

end
